theory Spec2Isabelle
  imports Complex_Main
begin

section \<open>REMI encoding of MusicXML scores: a model of \<open>xml_to_remi.py\<close>\<close>

text \<open>
  Quarter lengths and offsets are exact rationals here, where the script computes with
  doubles.  The two agree where every operand and result is a double and no rounding
  happens: on dyadic values of moderate size, and for a division when the divisor is a
  power of two, as the step of \<open>quantize_position\<close> is under its defaults and under the
  encoder's call with 4.  They can differ where a quotient is rounded (other steps) and
  next to the midpoint of two keys of the duration table, since the keys 2/3, 1/3, 1/6
  and 1/12 are here the fractions, not the doubles nearest to them.
\<close>

subsection \<open>Exceptions\<close>

datatype error =
    ZeroDivisionError
  | ValueError
  | KeyError
  | TypeError
  | AttributeError
  | ParseError
  | OSError

subsection \<open>Printing integers\<close>

definition digit_char :: "nat \<Rightarrow> char" where
  "digit_char d = ''0123456789'' ! d"

fun str_nat :: "nat \<Rightarrow> string" where
  "str_nat n = (if n < 10 then [digit_char n] else str_nat (n div 10) @ [digit_char (n mod 10)])"

declare str_nat.simps [simp del]

definition str_int :: "int \<Rightarrow> string" where
  "str_int i = (if i < 0 then CHR ''-'' # str_nat (nat (- i)) else str_nat (nat i))"

subsection \<open>The duration table\<close>

definition DURATION_LABELS :: "(rat \<times> string) list" where
  "DURATION_LABELS =
    [(4, ''Duration_1''), (3, ''Duration_d2''), (2, ''Duration_1/2''), (3/2, ''Duration_d1/4''),
     (1, ''Duration_1/4''), (2/3, ''Duration_1/4t''), (3/4, ''Duration_d1/8''), (1/2, ''Duration_1/8''),
     (1/3, ''Duration_1/8t''), (3/8, ''Duration_d1/16''), (1/4, ''Duration_1/16''),
     (1/6, ''Duration_1/16t''), (1/8, ''Duration_1/32''), (1/12, ''Duration_1/32t'')]"

text \<open>\<open>dict.keys()\<close> iterates in insertion order.\<close>

definition keys :: "('k \<times> 'v) list \<Rightarrow> 'k list" where
  "keys d = map fst d"

definition getitem :: "('k \<times> 'v) list \<Rightarrow> 'k \<Rightarrow> error + 'v" where
  "getitem d k = (case map_of d k of None \<Rightarrow> Inl KeyError | Some v \<Rightarrow> Inr v)"

subsection \<open>Quantizer\<close>

text \<open>Python's \<open>int(x)\<close> on a number drops the fractional part (rounds toward zero).\<close>

definition py_int :: "rat \<Rightarrow> int" where
  "py_int x = (if 0 \<le> x then \<lfloor>x\<rfloor> else \<lceil>x\<rceil>)"

definition py_truediv :: "rat \<Rightarrow> rat \<Rightarrow> error + rat" where
  "py_truediv a b = (if b = 0 then Inl ZeroDivisionError else Inr (a / b))"

definition quantize_position :: "rat \<Rightarrow> rat \<Rightarrow> rat \<Rightarrow> error + int" where
  "quantize_position offset quarter_length steps_per_quarter =
     (case py_truediv quarter_length steps_per_quarter of
        Inl e \<Rightarrow> Inl e
      | Inr step \<Rightarrow>
          (case py_truediv offset step of
             Inl e \<Rightarrow> Inl e
           | Inr q \<Rightarrow> Inr (py_int q)))"

text \<open>
  \<open>min(xs, key=f)\<close>: the first element whose key is smallest; \<open>ValueError\<close> on an
  empty sequence.
\<close>

fun min_loop :: "('a \<Rightarrow> rat) \<Rightarrow> 'a \<Rightarrow> 'a list \<Rightarrow> 'a" where
  "min_loop f best [] = best"
| "min_loop f best (x # xs) = (if f x < f best then min_loop f x xs else min_loop f best xs)"

definition py_min :: "'a list \<Rightarrow> ('a \<Rightarrow> rat) \<Rightarrow> error + 'a" where
  "py_min xs f = (case xs of [] \<Rightarrow> Inl ValueError | x # rest \<Rightarrow> Inr (min_loop f x rest))"

definition quantize_duration :: "rat \<Rightarrow> error + string" where
  "quantize_duration duration =
     (case py_min (keys DURATION_LABELS) (\<lambda>x. \<bar>x - duration\<bar>) of
        Inl e \<Rightarrow> Inl e
      | Inr closest \<Rightarrow> getitem DURATION_LABELS closest)"

subsection \<open>Scores\<close>

text \<open>
  What \<open>measure.notesAndRests\<close> yields: notes, rests, and the other general notes of
  the parsing library (chords, unpitched notes), which are instances of neither
  \<open>note.Note\<close> nor \<open>note.Rest\<close>.  An articulation is represented by its first class
  name.
\<close>

datatype event =
    Note rat int rat "string list"
  | Rest rat rat
  | Chord rat rat

fun offset :: "event \<Rightarrow> rat" where
  "offset (Note off m ql arts) = off"
| "offset (Rest off ql) = off"
| "offset (Chord off ql) = off"

fun is_Note :: "event \<Rightarrow> bool" where
  "is_Note (Note off m ql arts) = True"
| "is_Note _ = False"

fun is_Rest :: "event \<Rightarrow> bool" where
  "is_Rest (Rest off ql) = True"
| "is_Rest _ = False"

type_synonym measure = "event list"
type_synonym part = "measure list"
type_synonym score = "part list"

subsection \<open>Event encoder\<close>

text \<open>
  The body of the innermost loop of \<open>convert_xml_to_remi_musicbert\<close>: the tokens one
  element appends.  The call is \<open>quantize_position(el.offset, steps_per_quarter)\<close>, so
  the encoder's \<open>steps_per_quarter\<close> is bound to the second positional parameter,
  \<open>quarter_length\<close>, and the third keeps its default 4.
\<close>

definition encode_event :: "rat \<Rightarrow> event \<Rightarrow> error + string list" where
  "encode_event steps_per_quarter el =
     (case quantize_position (offset el) steps_per_quarter 4 of
        Inl e \<Rightarrow> Inl e
      | Inr pos \<Rightarrow>
          (case el of
             Note off m ql arts \<Rightarrow>
               (case quantize_duration ql of
                  Inl e \<Rightarrow> Inl e
                | Inr d \<Rightarrow>
                    Inr ([''Position_'' @ str_int pos, ''Pitch_'' @ str_int m, d]
                          @ map (\<lambda>art. ''Articulation_'' @ art) arts))
           | Rest off ql \<Rightarrow>
               (case quantize_duration ql of
                  Inl e \<Rightarrow> Inl e
                | Inr d \<Rightarrow> Inr [''Position_'' @ str_int pos, ''Rest'', d])
           | Chord off ql \<Rightarrow> Inr [''Position_'' @ str_int pos]))"

text \<open>Running a loop body over a sequence, appending to \<open>tokens\<close>; an exception ends it.\<close>

fun for_each :: "('a \<Rightarrow> error + string list) \<Rightarrow> 'a list \<Rightarrow> error + string list" where
  "for_each body [] = Inr []"
| "for_each body (x # xs) =
     (case body x of
        Inl e \<Rightarrow> Inl e
      | Inr ts \<Rightarrow> (case for_each body xs of Inl e \<Rightarrow> Inl e | Inr us \<Rightarrow> Inr (ts @ us)))"

definition encode_measure :: "rat \<Rightarrow> measure \<Rightarrow> error + string list" where
  "encode_measure steps_per_quarter m =
     (case for_each (encode_event steps_per_quarter) m of
        Inl e \<Rightarrow> Inl e
      | Inr ts \<Rightarrow> Inr (''Bar'' # ts))"

definition encode_part :: "rat \<Rightarrow> part \<Rightarrow> error + string list" where
  "encode_part steps_per_quarter p = for_each (encode_measure steps_per_quarter) p"

definition encode_score :: "rat \<Rightarrow> score \<Rightarrow> error + string list" where
  "encode_score steps_per_quarter sc = for_each (encode_part steps_per_quarter) sc"

subsection \<open>Counting the parts of a score\<close>

fun articulations :: "event \<Rightarrow> string list" where
  "articulations (Note off m ql arts) = arts"
| "articulations _ = []"

definition events :: "score \<Rightarrow> event list" where
  "events sc = concat (concat sc)"

text \<open>
  One token per measure, one per element (its position), two more per note or rest (the
  type-specific token and the duration), one per articulation.
\<close>

definition token_count :: "score \<Rightarrow> nat" where
  "token_count sc =
     length (concat sc) + length (events sc)
     + 2 * length (filter (\<lambda>el. is_Note el \<or> is_Rest el) (events sc))
     + length (concat (map articulations (events sc)))"

text \<open>
  The count as the specification words it: one per measure, two per event, one per note
  for its duration, one per articulation.
\<close>

definition spec_token_count :: "score \<Rightarrow> nat" where
  "spec_token_count sc =
     length (concat sc) + 2 * length (events sc)
     + length (filter is_Note (events sc))
     + length (concat (map articulations (events sc)))"

subsection \<open>Dictionaries and paths\<close>

text \<open>\<open>d[k] = v\<close> on a dictionary kept in insertion order.\<close>

fun setitem :: "('k \<times> 'v) list \<Rightarrow> 'k \<Rightarrow> 'v \<Rightarrow> ('k \<times> 'v) list" where
  "setitem [] k v = [(k, v)]"
| "setitem ((k', v') # d) k v = (if k' = k then (k, v) # d else (k', v') # setitem d k v)"

text \<open>\<open>s.lstrip(chars)\<close>: drop leading characters while they occur in \<open>chars\<close>.\<close>

fun lstrip :: "string \<Rightarrow> string \<Rightarrow> string" where
  "lstrip [] chars = []"
| "lstrip (c # s) chars = (if c \<in> set chars then lstrip s chars else c # s)"

fun split_slash :: "string \<Rightarrow> string \<Rightarrow> string list" where
  "split_slash cur [] = [rev cur]"
| "split_slash cur (c # s) =
     (if c = CHR ''/'' then rev cur # split_slash [] s else split_slash (c # cur) s)"

text \<open>The components a POSIX path keeps: empty ones and \<open>.\<close> are dropped, \<open>..\<close> stays.\<close>

definition path_parts :: "string \<Rightarrow> string list" where
  "path_parts s = filter (\<lambda>p. p \<noteq> [] \<and> p \<noteq> ''.'') (split_slash [] s)"

definition join_parts :: "string list \<Rightarrow> string" where
  "join_parts ps = concat (map (\<lambda>p. CHR ''/'' # p) ps)"

definition anchor :: "string \<Rightarrow> string" where
  "anchor s = (if take 2 s = ''//'' \<and> take 3 s \<noteq> ''///'' then ''/'' else [])"

text \<open>
  \<open>str(base / rel)\<close> for an absolute, normalised \<open>base\<close>: an absolute \<open>rel\<close>
  replaces it, a relative one is appended component by component.
\<close>

definition joinpath :: "string \<Rightarrow> string \<Rightarrow> string" where
  "joinpath base rel =
     (if take 1 rel = ''/''
      then (if path_parts rel = [] then anchor rel @ ''/'' else anchor rel @ join_parts (path_parts rel))
      else base @ join_parts (path_parts rel))"

definition basename :: "string \<Rightarrow> string" where
  "basename p = rev (takeWhile (\<lambda>c. c \<noteq> CHR ''/'') (rev p))"

text \<open>\<open>Path(p).stem\<close>: the final component without its last suffix.\<close>

definition stem :: "string \<Rightarrow> string" where
  "stem p =
     (let name = basename p; suffix = takeWhile (\<lambda>c. c \<noteq> CHR ''.'') (rev name)
      in if CHR ''.'' \<in> set name
         then (let i = length name - length suffix - 1
               in if 0 < i \<and> i < length name - 1 then take i name else name)
         else name)"

fun strip_prefix :: "string \<Rightarrow> string \<Rightarrow> string option" where
  "strip_prefix [] s = Some s"
| "strip_prefix (p # ps) [] = None"
| "strip_prefix (p # ps) (c # s) = (if p = c then strip_prefix ps s else None)"

text \<open>\<open>file.relative_to(root).as_posix()\<close>; \<open>ValueError\<close> when \<open>file\<close> is not below \<open>base\<close>.\<close>

definition relative_to :: "string \<Rightarrow> string \<Rightarrow> error + string" where
  "relative_to file base =
     (case strip_prefix (base @ ''/'') file of None \<Rightarrow> Inl ValueError | Some r \<Rightarrow> Inr r)"

definition PROJECT_ROOT :: string where
  "PROJECT_ROOT = ''/mnt/c/Users/james/projects/transmusetate/project_root''"

definition RESULTS_DIR :: string where
  "RESULTS_DIR = joinpath PROJECT_ROOT ''results''"

subsection \<open>Metadata merger\<close>

datatype json =
    JNull
  | JBool bool
  | JNum rat
  | JStr string
  | JArr "json list"
  | JObj "(string \<times> json) list"

text \<open>A cell of the index table: a string, or the missing value a blank cell is read as.\<close>

datatype cell = Str string | NaN

text \<open>
  The surroundings the script reads: the index \<open>PDMX_DICT\<close>, the score parser, the
  reading of a JSON file (\<open>open\<close> followed by \<open>json.load\<close>), and which output paths
  can be written.
\<close>

record world =
  PDMX_DICT :: "(string \<times> cell) list"
  parse :: "string \<Rightarrow> error + score"
  read_json :: "string \<Rightarrow> error + json"
  writable :: "string \<Rightarrow> bool"

definition json_path_of :: "string \<Rightarrow> string" where
  "json_path_of v = joinpath PROJECT_ROOT (lstrip v ''./'')"

definition load_external_metadata :: "world \<Rightarrow> string \<Rightarrow> error + json" where
  "load_external_metadata w mxl_path_relative =
     (case map_of (PDMX_DICT w) mxl_path_relative of
        None \<Rightarrow> Inr (JObj [])
      | Some NaN \<Rightarrow> Inl AttributeError
      | Some (Str v) \<Rightarrow>
          (case read_json w (json_path_of v) of
             Inl e \<Rightarrow> Inr (JObj [])
           | Inr j \<Rightarrow> Inr j))"

definition convert_xml_to_remi_musicbert ::
  "world \<Rightarrow> string \<Rightarrow> string \<Rightarrow> rat \<Rightarrow> error + (string list \<times> (string \<times> json) list)" where
  "convert_xml_to_remi_musicbert w file_path rel_mxl_path steps_per_quarter =
     (case parse w file_path of
        Inl e \<Rightarrow> Inl e
      | Inr sc \<Rightarrow>
          (case load_external_metadata w rel_mxl_path of
             Inl e \<Rightarrow> Inl e
           | Inr (JObj d) \<Rightarrow>
               (let metadata = setitem d ''filename'' (JStr (basename file_path))
                in case encode_score steps_per_quarter sc of
                     Inl e \<Rightarrow> Inl e
                   | Inr tokens \<Rightarrow> Inr (tokens, metadata))
           | Inr _ \<Rightarrow> Inl TypeError))"

subsection \<open>Batch driver\<close>

datatype content = Text string | Data "(string \<times> json) list"

datatype csv_line = Header "string list" | Row "json list"

record state =
  fs :: "(string \<times> content) list"
  csv :: "csv_line list"
  first_row :: bool
  reported :: "(string \<times> error) list"

fun join_space :: "string list \<Rightarrow> string" where
  "join_space [] = []"
| "join_space [t] = t"
| "join_space (t # ts) = t @ '' '' @ join_space ts"

text \<open>
  A write either happens or raises \<open>OSError\<close> before anything is stored
  (\<open>os.makedirs\<close> or \<open>open\<close> failing).
\<close>

definition save_tokens ::
  "world \<Rightarrow> string list \<Rightarrow> string \<Rightarrow> string \<Rightarrow> (string \<times> content) list
    \<Rightarrow> error + (string \<times> content) list" where
  "save_tokens w tokens file_path output_dir files =
     (let out_path = joinpath output_dir (stem file_path @ ''.remi.txt'')
      in if writable w out_path then Inr (setitem files out_path (Text (join_space tokens)))
         else Inl OSError)"

definition save_metadata_json ::
  "world \<Rightarrow> (string \<times> json) list \<Rightarrow> string \<Rightarrow> string \<Rightarrow> (string \<times> content) list
    \<Rightarrow> error + (string \<times> content) list" where
  "save_metadata_json w metadata file_path output_dir files =
     (let out_path = joinpath output_dir (stem file_path @ ''.metadata.json'')
      in if writable w out_path then Inr (setitem files out_path (Data metadata))
         else Inl OSError)"

definition to_csv ::
  "world \<Rightarrow> (string \<times> json) list \<Rightarrow> string \<Rightarrow> bool \<Rightarrow> csv_line list \<Rightarrow> error + csv_line list" where
  "to_csv w metadata path header lines =
     (if writable w path
      then Inr (lines @ (if header then [Header (map fst metadata)] else []) @ [Row (map snd metadata)])
      else Inl OSError)"

text \<open>
  The \<open>try\<close> block for one file.  What was written before an exception stays written, so
  the block returns the state it reached together with the exception, if any.
\<close>

definition try_block :: "world \<Rightarrow> string \<Rightarrow> string \<Rightarrow> string \<Rightarrow> state \<Rightarrow> state \<times> error option" where
  "try_block w file rel_path output_dir st =
     (case convert_xml_to_remi_musicbert w file rel_path 4 of
        Inl e \<Rightarrow> (st, Some e)
      | Inr (tokens, metadata) \<Rightarrow>
          (case save_tokens w tokens file output_dir (fs st) of
             Inl e \<Rightarrow> (st, Some e)
           | Inr fs1 \<Rightarrow>
               (case save_metadata_json w metadata file output_dir fs1 of
                  Inl e \<Rightarrow> (st\<lparr>fs := fs1\<rparr>, Some e)
                | Inr fs2 \<Rightarrow>
                    (case to_csv w metadata (joinpath output_dir ''all_metadata.csv'')
                            (first_row st) (csv st) of
                       Inl e \<Rightarrow> (st\<lparr>fs := fs2\<rparr>, Some e)
                     | Inr csv' \<Rightarrow>
                         (st\<lparr>fs := fs2, csv := csv', first_row := False\<rparr>, None)))))"

text \<open>One iteration of the loop; \<open>relative_to\<close> is outside the \<open>try\<close>.\<close>

definition process_file :: "world \<Rightarrow> string \<Rightarrow> string \<Rightarrow> state \<Rightarrow> error + state" where
  "process_file w output_dir file st =
     (case relative_to file PROJECT_ROOT of
        Inl e \<Rightarrow> Inl e
      | Inr r \<Rightarrow>
          (case try_block w file (''./'' @ r) output_dir st of
             (st', None) \<Rightarrow> Inr st'
           | (st', Some e) \<Rightarrow> Inr (st'\<lparr>reported := reported st' @ [(file, e)]\<rparr>)))"

fun batch_loop :: "world \<Rightarrow> string \<Rightarrow> string list \<Rightarrow> state \<Rightarrow> error + state" where
  "batch_loop w output_dir [] st = Inr st"
| "batch_loop w output_dir (file # files) st =
     (case process_file w output_dir file st of
        Inl e \<Rightarrow> Inl e
      | Inr st' \<Rightarrow> batch_loop w output_dir files st')"

text \<open>
  \<open>batch_process\<close>: \<open>files\<close> is what \<open>rglob("*.mxl")\<close> finds, \<open>disk\<close> and \<open>table\<close>
  what the output directory and the aggregate table hold before the run.
\<close>

definition batch_process ::
  "world \<Rightarrow> string list \<Rightarrow> string \<Rightarrow> (string \<times> content) list \<Rightarrow> csv_line list \<Rightarrow> error + state" where
  "batch_process w files output_dir disk table =
     (if writable w output_dir
      then batch_loop w output_dir files
             \<lparr>fs = disk, csv = table, first_row = True, reported = []\<rparr>
      else Inl OSError)"










section \<open>Vocabulary builder: a model of \<open>tokenise_remi.py\<close>\<close>

text \<open>
  The script fixes the size budget, the special tokens and the unknown token, and hands
  the corpus to the word-level trainer of the tokenizer library.
\<close>

definition vocab_size :: nat where
  "vocab_size = 512"

definition special_tokens :: "string list" where
  "special_tokens = [''[PAD]'', ''[CLS]'', ''[SEP]'', ''[MASK]'', ''[UNK]'']"

definition unk_token :: string where
  "unk_token = ''[UNK]''"

text \<open>
  Modelled from the spec: the whitespace splitting of a corpus line (the library's
  pre-tokenizer is not part of the sources).
\<close>

fun split_ws :: "string \<Rightarrow> string \<Rightarrow> string list" where
  "split_ws cur [] = (if cur = [] then [] else [rev cur])"
| "split_ws cur (c # s) =
     (if c \<in> set [CHR '' '', CHR 0x09, CHR 0x0A, CHR 0x0D]
      then (if cur = [] then split_ws [] s else rev cur # split_ws [] s)
      else split_ws (c # cur) s)"

text \<open>
  Modelled from the spec: the corpus as one sequence of tokens, every line split on
  whitespace.
\<close>

definition corpus_tokens :: "string list \<Rightarrow> string list" where
  "corpus_tokens lines = concat (map (split_ws []) lines)"

text \<open>
  Modelled from the spec: the distinct tokens of the corpus in first-seen order.
\<close>

definition first_seen :: "'a list \<Rightarrow> 'a list" where
  "first_seen xs = rev (remdups (rev xs))"

text \<open>
  Modelled from the spec: the word-level trainer (the library's trainer is not part of
  the sources).  The special tokens come first, in their declared order, then the corpus
  tokens by descending frequency, ties in first-seen order (the sort is stable), and the
  whole is cut to the size budget.  A token's id is its position.
\<close>

definition build_vocabulary :: "nat \<Rightarrow> string list \<Rightarrow> string list \<Rightarrow> string list" where
  "build_vocabulary budget specials lines =
     (let toks = corpus_tokens lines;
          corpus = filter (\<lambda>t. t \<notin> set specials) (first_seen toks);
          ordered = sort_key (\<lambda>t. - int (count_list toks t)) corpus
      in take budget (specials @ ordered))"

text \<open>
  Modelled from the spec: the id of a token of the vocabulary, its first position.
\<close>

fun index_of :: "'a list \<Rightarrow> 'a \<Rightarrow> nat option" where
  "index_of [] t = None"
| "index_of (x # xs) t = (if x = t then Some 0 else map_option Suc (index_of xs t))"

text \<open>
  Modelled from the spec: the id a token gets at use time; a token outside the
  vocabulary gets the id of the unknown token.
\<close>

definition token_to_id :: "string list \<Rightarrow> string \<Rightarrow> nat option" where
  "token_to_id vocab t =
     (case index_of vocab t of Some i \<Rightarrow> Some i | None \<Rightarrow> index_of vocab unk_token)"

definition train :: "string list \<Rightarrow> string list" where
  "train lines = build_vocabulary vocab_size special_tokens lines"

section \<open>Example surroundings\<close>

text \<open>
  Input files of which \<open>b.mxl\<close> does not parse and the metadata file of \<open>d.mxl\<close> cannot
  be written; the index knows \<open>a.mxl\<close> only.
\<close>

definition example_world :: world where
  "example_world =
     \<lparr>PDMX_DICT = [(''./mxl/a.mxl'', Str ''./metadata/a.json'')],
      parse = (\<lambda>p. if p = PROJECT_ROOT @ ''/mxl/b.mxl'' then Inl ParseError
                    else Inr [[[Rest 0 4]]]),
      read_json = (\<lambda>p. if p = PROJECT_ROOT @ ''/metadata/a.json''
                        then Inr (JObj [(''filename'', JStr ''old''), (''title'', JStr ''Air'')])
                        else Inl OSError),
      writable = (\<lambda>p. p \<noteq> ''/out/d.metadata.json'')\<rparr>"


text \<open>
  A corpus that exhausts the budget of the script, one token per line: 529 two-letter
  words twice each, before them \<open>aa\<close> two more times and \<open>ab\<close> one more time, and at
  the end \<open>zz\<close> once.
\<close>

definition alphabet :: string where
  "alphabet = ''abcdefghijklmnopqrstuvw''"

definition two_letter_words :: "string list" where
  "two_letter_words = map (\<lambda>(a, b). [a, b]) (List.product alphabet alphabet)"

definition example_corpus :: "string list" where
  "example_corpus = [''aa'', ''aa'', ''ab''] @ two_letter_words @ two_letter_words @ [''zz'']"

section \<open>Properties of the quantizer\<close>

lemma min_loop_mem: "min_loop f b xs \<in> set (b # xs)"
  by (induction xs arbitrary: b) auto

lemma getitem_mem:
  assumes "k \<in> set (keys d)"
  shows "\<exists>v \<in> set (map snd d). getitem d k = Inr v"
proof -
  from assms obtain v where "map_of d k = Some v"
    by (auto simp: keys_def dest: weak_map_of_SomeI)
  moreover then have "(k, v) \<in> set d" by (rule map_of_SomeD)
  ultimately show ?thesis by (force simp: getitem_def)
qed

lemma quantize_duration_total:
  "\<exists>l \<in> set (map snd DURATION_LABELS). quantize_duration d = Inr l"
proof -
  obtain k ks where ks: "keys DURATION_LABELS = k # ks"
    by (simp add: keys_def DURATION_LABELS_def)
  have "min_loop (\<lambda>x. \<bar>x - d\<bar>) k ks \<in> set (keys DURATION_LABELS)"
    unfolding ks by (rule min_loop_mem)
  from getitem_mem [OF this] show ?thesis
    by (simp add: quantize_duration_def py_min_def ks)
qed


text \<open>
  On its own, with the defaults, \<open>quantize_position\<close> computes the index of the sixteenth
  an offset falls into.
\<close>

lemma quantize_position_default:
  assumes "0 \<le> off"
  shows "quantize_position off 1 4 = Inr \<lfloor>4 * off\<rfloor>"
  using assms by (simp add: quantize_position_def py_truediv_def py_int_def mult.commute)

lemma encode_event_pos:
  assumes "s \<noteq> 0"
  shows "quantize_position off s 4 = Inr (py_int (off / (s / 4)))"
  using assms by (simp add: quantize_position_def py_truediv_def)


text \<open>
  C6, as the claim states it, fails: on the negative offset -1/2 \<open>quantize_position\<close>
  raises nothing and returns the index -2, and on -1/10 it returns 0.
\<close>

theorem quantize_position_negative_returns:
  "quantize_position (- 1 / 2) 1 4 = Inr (- 2) \<and> quantize_position (- 1 / 10) 1 4 = Inr 0"
  by (simp add: quantize_position_def py_truediv_def py_int_def ceiling_eq_iff)

text \<open>
  C6, amended.  For a negative offset that is a double of magnitude below \<open>2^53\<close>
  (minus \<open>m / 2^k\<close> with \<open>0 < m < 2^53\<close> and \<open>k \<le> 1074\<close>), \<open>quantize_position\<close> with
  its defaults, quarter length 1 and 4 steps, raises nothing: it returns four times the
  offset rounded toward zero, that is, its ceiling.  (The step 1/4 is a power of two, so
  the division of doubles is exact and equals the division of rationals.)
\<close>

theorem quantize_position_negative:
  assumes "0 < m" "m < 2 ^ 53" "k \<le> 1074" "off = - rat_of_nat m / 2 ^ k"
  shows "off < 0 \<and> quantize_position off 1 4 = Inr \<lceil>4 * off\<rceil>"
proof -
  from assms(1,4) have "off < 0" by simp
  then show ?thesis
    by (simp add: quantize_position_def py_truediv_def py_int_def mult.commute)
qed

theorem quantize_position_negative_witness:
  "(0::nat) < 1 \<and> (1::nat) < 2 ^ 53 \<and> (3::nat) \<le> 1074
   \<and> (- 1 / 8 :: rat) = - rat_of_nat 1 / 2 ^ 3
   \<and> (- 1 / 8 :: rat) < 0 \<and> quantize_position (- 1 / 8) 1 4 = Inr 0"
  using quantize_position_negative [of 1 3 "- 1 / 8"] by (simp add: ceiling_eq_iff)

section \<open>Properties of the event encoder\<close>

lemma encode_event_length:
  assumes "encode_event s el = Inr ts"
  shows "length ts = 1 + 2 * (if is_Note el \<or> is_Rest el then 1 else 0) + length (articulations el)"
  using assms by (cases el) (auto simp: encode_event_def split: sum.splits)

lemma encode_event_total:
  assumes "s \<noteq> 0"
  shows "\<exists>ts. encode_event s el = Inr ts"
proof -
  have qd: "\<exists>l. quantize_duration d = Inr l" for d
    using quantize_duration_total [of d] by blast
  show ?thesis
  proof (cases el)
    case (Note off m ql arts)
    with qd [of ql] assms show ?thesis
      by (auto simp: encode_event_def encode_event_pos)
  next
    case (Rest off ql)
    with qd [of ql] assms show ?thesis
      by (auto simp: encode_event_def encode_event_pos)
  next
    case (Chord off ql)
    with assms show ?thesis
      by (simp add: encode_event_def encode_event_pos)
  qed
qed

lemma for_each_total:
  assumes "\<And>x. x \<in> set xs \<Longrightarrow> \<exists>ts. body x = Inr ts"
  shows "\<exists>ts. for_each body xs = Inr ts"
  using assms
proof (induction xs)
  case Nil
  show ?case by simp
next
  case (Cons x xs)
  from Cons.prems obtain ts where "body x = Inr ts" by auto
  moreover from Cons obtain us where "for_each body xs = Inr us" by auto
  ultimately show ?case by simp
qed

lemma encode_measure_total:
  assumes "s \<noteq> 0"
  shows "\<exists>ts. encode_measure s m = Inr ts"
proof -
  from for_each_total [of m "encode_event s"] encode_event_total [OF assms]
  obtain ts where "for_each (encode_event s) m = Inr ts" by blast
  then show ?thesis by (simp add: encode_measure_def)
qed

lemma encode_score_total:
  assumes "s \<noteq> 0"
  shows "\<exists>ts. encode_score s sc = Inr ts"
  unfolding encode_score_def encode_part_def
  by (intro for_each_total encode_measure_total assms)

lemma encode_measure_length:
  "encode_measure s m = Inr ts \<Longrightarrow>
   length ts = 1 + length m + 2 * length (filter (\<lambda>el. is_Note el \<or> is_Rest el) m)
     + length (concat (map articulations m))"
proof -
  have "for_each (encode_event s) m = Inr us \<Longrightarrow>
        length us = length m + 2 * length (filter (\<lambda>el. is_Note el \<or> is_Rest el) m)
          + length (concat (map articulations m))" for us
  proof (induction m arbitrary: us)
    case Nil
    then show ?case by simp
  next
    case (Cons el m)
    from Cons.prems obtain a b where a: "encode_event s el = Inr a"
      and b: "for_each (encode_event s) m = Inr b" and us: "us = a @ b"
      by (auto split: sum.splits)
    from encode_event_length [OF a] Cons.IH [OF b] us show ?case by simp
  qed
  then show "encode_measure s m = Inr ts \<Longrightarrow> ?thesis"
    by (auto simp: encode_measure_def split: sum.splits)
qed

lemma encode_part_length:
  "encode_part s p = Inr ts \<Longrightarrow>
   length ts = length p + length (concat p)
     + 2 * length (filter (\<lambda>el. is_Note el \<or> is_Rest el) (concat p))
     + length (concat (map articulations (concat p)))"
  unfolding encode_part_def
proof (induction p arbitrary: ts)
  case Nil
  then show ?case by simp
next
  case (Cons m p)
  from Cons.prems obtain a b where a: "encode_measure s m = Inr a"
    and b: "for_each (encode_measure s) p = Inr b" and ts: "ts = a @ b"
    by (auto split: sum.splits)
  from encode_measure_length [OF a] Cons.IH [OF b] ts show ?case by simp
qed

lemma encode_score_length:
  "encode_score s sc = Inr ts \<Longrightarrow> length ts = token_count sc"
  unfolding encode_score_def token_count_def events_def
proof (induction sc arbitrary: ts)
  case Nil
  then show ?case by simp
next
  case (Cons p sc)
  from Cons.prems obtain a b where a: "encode_part s p = Inr a"
    and b: "for_each (encode_part s) sc = Inr b" and ts: "ts = a @ b"
    by (auto split: sum.splits)
  from encode_part_length [OF a] Cons.IH [OF b] ts show ?case by simp
qed

lemma encode_event_duration:
  assumes "encode_event s el = Inr ts" "t \<in> set ts" "take 9 t = ''Duration_''"
  shows "t \<in> set (map snd DURATION_LABELS)"
proof (cases el)
  case (Note off m ql arts)
  from quantize_duration_total [of ql] obtain l
    where l: "l \<in> set (map snd DURATION_LABELS)" "quantize_duration ql = Inr l" by blast
  with assms Note show ?thesis
    by (force simp: encode_event_def split: sum.splits)
next
  case (Rest off ql)
  from quantize_duration_total [of ql] obtain l
    where l: "l \<in> set (map snd DURATION_LABELS)" "quantize_duration ql = Inr l" by blast
  with assms Rest show ?thesis
    by (force simp: encode_event_def split: sum.splits)
next
  case (Chord off ql)
  with assms show ?thesis
    by (auto simp: encode_event_def split: sum.splits)
qed

lemma for_each_mem:
  assumes "for_each body xs = Inr ts" "t \<in> set ts"
  shows "\<exists>x \<in> set xs. \<exists>us. body x = Inr us \<and> t \<in> set us"
  using assms
proof (induction xs arbitrary: ts)
  case Nil
  then show ?case by simp
next
  case (Cons x xs)
  from Cons.prems(1) obtain a b where a: "body x = Inr a"
    and b: "for_each body xs = Inr b" and ts: "ts = a @ b"
    by (auto split: sum.splits)
  show ?case
  proof (cases "t \<in> set a")
    case True
    with a show ?thesis by auto
  next
    case False
    with Cons.prems(2) ts have "t \<in> set b" by simp
    from Cons.IH [OF b this] show ?thesis by auto
  qed
qed

lemma encode_score_duration:
  assumes "encode_score s sc = Inr ts" "t \<in> set ts" "take 9 t = ''Duration_''"
  shows "t \<in> set (map snd DURATION_LABELS)"
proof -
  from for_each_mem [OF assms(1) [unfolded encode_score_def] assms(2)]
  obtain p us where us: "encode_part s p = Inr us" "t \<in> set us" by blast
  from for_each_mem [OF us(1) [unfolded encode_part_def] us(2)]
  obtain m vs where vs: "encode_measure s m = Inr vs" "t \<in> set vs" by blast
  from vs(1) obtain ws where ws: "for_each (encode_event s) m = Inr ws" "vs = ''Bar'' # ws"
    by (auto simp: encode_measure_def split: sum.splits)
  with vs(2) assms(3) have "t \<in> set ws" by auto
  from for_each_mem [OF ws(1) this]
  obtain el xs where "encode_event s el = Inr xs" "t \<in> set xs" by blast
  then show ?thesis using assms(3) by (rule encode_event_duration)
qed

text \<open>
  C1.  What the encoder does at a note on the second eighth of a measure (offset 1/2),
  with its default of 4 steps per quarter: it emits \<open>Position_0\<close>.  The index the claim
  gives, and \<open>quantize_position\<close> with its own defaults computes, is 2.  The encoder
  passes its step count where \<open>quantize_position\<close> expects the quarter length.
\<close>

theorem encoder_position_at_half_offset:
  "encode_event 4 (Note (1/2) 60 (1/2) []) = Inr [''Position_0'', ''Pitch_60'', ''Duration_1/8'']
   \<and> quantize_position (1/2) 1 4 = Inr 2"
  by (simp add: encode_event_def quantize_position_def py_truediv_def py_int_def
      quantize_duration_def py_min_def keys_def DURATION_LABELS_def getitem_def
      str_int_def str_nat.simps digit_char_def)

text \<open>
  C2, as the claim states it, fails: for a chord, which is neither a note nor a rest,
  the encoder emits one token, the position.
\<close>

theorem chord_emits_position:
  "encode_event 4 (Chord (1/2) 1) = Inr [''Position_0'']
   \<and> encode_event 4 (Chord (1/2) 1) \<noteq> Inr []"
  by (simp add: encode_event_def quantize_position_def py_truediv_def py_int_def
      str_int_def str_nat.simps digit_char_def)

text \<open>
  C2, amended.  For an event that is neither a note nor a rest the encoder emits exactly
  one token, the position token of its offset, and nothing else: no type-specific token,
  no duration, no articulation.
\<close>

theorem other_event_emits_position_only:
  assumes "\<not> is_Note el" "\<not> is_Rest el" "s \<noteq> 0"
  shows "encode_event s el = Inr [''Position_'' @ str_int (py_int (offset el / (s / 4)))]"
  using assms by (cases el) (simp_all add: encode_event_def encode_event_pos)

theorem other_event_emits_position_only_witness:
  "\<not> is_Note (Chord 2 1) \<and> \<not> is_Rest (Chord 2 1) \<and> (4::rat) \<noteq> 0
   \<and> encode_event 4 (Chord 2 1) = Inr [''Position_2'']"
  using other_event_emits_position_only [of "Chord 2 1" 4]
  by (simp add: py_int_def str_int_def str_nat.simps digit_char_def)

text \<open>
  C3, as the claim states it, fails: a score of one measure holding one rest is encoded
  in four tokens (the rest has a duration token too), where the claimed count is three.
\<close>

theorem rest_has_duration_token:
  "encode_score 4 [[[Rest 0 1]]] = Inr [''Bar'', ''Position_0'', ''Rest'', ''Duration_1/4'']
   \<and> spec_token_count [[[Rest 0 1]]] = 3
   \<and> length [''Bar'', ''Position_0'', ''Rest'', ''Duration_1/4''] \<noteq> spec_token_count [[[Rest 0 1]]]"
  by (simp add: encode_score_def encode_part_def encode_measure_def encode_event_def
      quantize_position_def py_truediv_def py_int_def quantize_duration_def py_min_def keys_def
      DURATION_LABELS_def getitem_def str_int_def str_nat.simps digit_char_def
      spec_token_count_def events_def)

text \<open>
  C3, amended.  For a step count other than zero the encoder returns, and the length of
  the token sequence is the number of measures, plus one per event (its position), plus
  two per note or rest (the type-specific token and the duration token), plus one per
  articulation attached to a note.
\<close>

theorem encode_score_token_count:
  assumes "s \<noteq> 0"
  shows "\<exists>ts. encode_score s sc = Inr ts \<and> length ts = token_count sc"
  using encode_score_total [OF assms, of sc] encode_score_length by blast

theorem encode_score_token_count_witness:
  "(4::rat) \<noteq> 0
   \<and> (\<exists>ts. encode_score 4 [[[Note 0 60 1 [''Staccato''], Rest 1 1, Chord 2 2]]] = Inr ts
         \<and> length ts = 9)"
  using encode_score_token_count [of 4 "[[[Note 0 60 1 [''Staccato''], Rest 1 1, Chord 2 2]]]"]
  by (simp add: token_count_def events_def)

text \<open>
  C4, as the claim states it, fails: the duration table has 14 entries, not 13.
\<close>

theorem duration_table_not_thirteen:
  "length DURATION_LABELS = 14 \<and> length DURATION_LABELS \<noteq> 13"
  by (simp add: DURATION_LABELS_def)

text \<open>
  C4, amended.  The duration table is a constant of exactly 14 entries with 14 different
  keys, its labels are the 14 labels the token grammar lists, and every duration token
  the encoder emits is one of them.
\<close>

theorem duration_table_fourteen:
  "length DURATION_LABELS = 14
   \<and> distinct (keys DURATION_LABELS)
   \<and> map snd DURATION_LABELS =
       map (\<lambda>l. ''Duration_'' @ l)
         [''1'', ''d2'', ''1/2'', ''d1/4'', ''1/4'', ''1/4t'', ''d1/8'', ''1/8'', ''1/8t'',
          ''d1/16'', ''1/16'', ''1/16t'', ''1/32'', ''1/32t'']
   \<and> (\<forall>d. \<exists>l \<in> set (map snd DURATION_LABELS). quantize_duration d = Inr l)
   \<and> (\<forall>s sc ts t. encode_score s sc = Inr ts \<and> t \<in> set ts \<and> take 9 t = ''Duration_''
         \<longrightarrow> t \<in> set (map snd DURATION_LABELS))"
proof -
  have "length DURATION_LABELS = 14" by (simp add: DURATION_LABELS_def)
  moreover have "distinct (keys DURATION_LABELS)" by (simp add: keys_def DURATION_LABELS_def)
  moreover have "map snd DURATION_LABELS =
       map (\<lambda>l. ''Duration_'' @ l)
         [''1'', ''d2'', ''1/2'', ''d1/4'', ''1/4'', ''1/4t'', ''d1/8'', ''1/8'', ''1/8t'',
          ''d1/16'', ''1/16'', ''1/16t'', ''1/32'', ''1/32t'']"
    by (simp add: DURATION_LABELS_def)
  ultimately show ?thesis
    using quantize_duration_total encode_score_duration by blast
qed

theorem duration_table_fourteen_witness:
  "encode_score 4 [[[Note 0 60 1 []]]] = Inr [''Bar'', ''Position_0'', ''Pitch_60'', ''Duration_1/4'']
   \<and> ''Duration_1/4'' \<in> set [''Bar'', ''Position_0'', ''Pitch_60'', ''Duration_1/4'']
   \<and> take 9 ''Duration_1/4'' = ''Duration_''
   \<and> ''Duration_1/4'' \<in> set (map snd DURATION_LABELS)"
proof -
  have e: "encode_score 4 [[[Note 0 60 1 []]]] = Inr [''Bar'', ''Position_0'', ''Pitch_60'', ''Duration_1/4'']"
    by (simp add: encode_score_def encode_part_def encode_measure_def encode_event_def
        quantize_position_def py_truediv_def py_int_def quantize_duration_def py_min_def keys_def
        DURATION_LABELS_def getitem_def str_int_def str_nat.simps digit_char_def)
  have m: "''Duration_1/4'' \<in> set [''Bar'', ''Position_0'', ''Pitch_60'', ''Duration_1/4'']"
    by simp
  have t: "take 9 ''Duration_1/4'' = ''Duration_''" by simp
  from duration_table_fourteen e m t
  have "''Duration_1/4'' \<in> set (map snd DURATION_LABELS)" by blast
  with e m t show ?thesis by blast
qed

section \<open>Properties of the metadata merger\<close>

lemma map_of_setitem: "map_of (setitem d k v) = (map_of d)(k \<mapsto> v)"
  by (induction d k v rule: setitem.induct) auto

lemma lstrip_dropWhile: "lstrip v cs = dropWhile (\<lambda>c. c \<in> set cs) v"
  by (induction v) auto

text \<open>
  C10.  Resolving a metadata path strips every leading \<open>.\<close> and \<open>/\<close> of the stored
  path, not one \<open>./\<close> prefix, before the join with the project root: \<open>../meta.json\<close>
  resolves to \<open>meta.json\<close> below the project root, and that is the file read; the
  leading dot of a first component \<open>.hidden\<close> is lost the same way.
\<close>

theorem lstrip_drops_all_leading_dots_and_slashes:
  "lstrip v ''./'' = dropWhile (\<lambda>c. c = CHR ''.'' \<or> c = CHR ''/'') v
   \<and> json_path_of ''../meta.json'' = PROJECT_ROOT @ ''/meta.json''
   \<and> json_path_of ''./.hidden/meta.json'' = PROJECT_ROOT @ ''/hidden/meta.json''
   \<and> json_path_of ''./metadata/a.json'' = PROJECT_ROOT @ ''/metadata/a.json''
   \<and> load_external_metadata
         \<lparr>PDMX_DICT = [(rel, Str ''../meta.json'')], parse = p, read_json = r, writable = wr\<rparr> rel
       = (case r (PROJECT_ROOT @ ''/meta.json'') of Inl e \<Rightarrow> Inr (JObj []) | Inr j \<Rightarrow> Inr j)"
  by (simp add: lstrip_dropWhile json_path_of_def joinpath_def path_parts_def join_parts_def
      load_external_metadata_def)

text \<open>
  C8.  Whenever the conversion of a file returns, the metadata it returns is the loaded
  record (the empty one when nothing was loaded) with the key \<open>filename\<close> set to the
  base name of the file, whatever the loaded record held under that key; when the index
  has no entry for the relative path, the record is the single pair of \<open>filename\<close> and
  that name.
\<close>

theorem metadata_filename_overlay:
  assumes "convert_xml_to_remi_musicbert w file rel s = Inr (tokens, metadata)"
  shows "\<exists>d. load_external_metadata w rel = Inr (JObj d)
           \<and> map_of metadata = (map_of d)(''filename'' \<mapsto> JStr (basename file))
           \<and> (map_of (PDMX_DICT w) rel = None
                \<longrightarrow> metadata = [(''filename'', JStr (basename file))])"
  using assms
  by (auto simp: convert_xml_to_remi_musicbert_def map_of_setitem load_external_metadata_def Let_def
      split: sum.splits json.splits option.splits cell.splits)

theorem metadata_filename_overlay_witness:
  "convert_xml_to_remi_musicbert example_world (PROJECT_ROOT @ ''/mxl/a.mxl'') ''./mxl/a.mxl'' 4
     = Inr ([''Bar'', ''Position_0'', ''Rest'', ''Duration_1''],
            [(''filename'', JStr ''a.mxl''), (''title'', JStr ''Air'')])
   \<and> map_of [(''filename'', JStr ''a.mxl''), (''title'', JStr ''Air'')] ''filename''
       = Some (JStr ''a.mxl'')
   \<and> convert_xml_to_remi_musicbert example_world (PROJECT_ROOT @ ''/mxl/c.mxl'') ''./mxl/c.mxl'' 4
     = Inr ([''Bar'', ''Position_0'', ''Rest'', ''Duration_1''], [(''filename'', JStr ''c.mxl'')])
   \<and> map_of (PDMX_DICT example_world) ''./mxl/c.mxl'' = None"
proof -
  have a: "convert_xml_to_remi_musicbert example_world (PROJECT_ROOT @ ''/mxl/a.mxl'') ''./mxl/a.mxl'' 4
     = Inr ([''Bar'', ''Position_0'', ''Rest'', ''Duration_1''],
            [(''filename'', JStr ''a.mxl''), (''title'', JStr ''Air'')])"
    by (simp add: convert_xml_to_remi_musicbert_def example_world_def load_external_metadata_def
        json_path_of_def joinpath_def path_parts_def join_parts_def PROJECT_ROOT_def basename_def
        encode_score_def encode_part_def encode_measure_def encode_event_def
        quantize_position_def py_truediv_def py_int_def quantize_duration_def py_min_def keys_def
        DURATION_LABELS_def getitem_def str_int_def str_nat.simps digit_char_def)
  have c: "convert_xml_to_remi_musicbert example_world (PROJECT_ROOT @ ''/mxl/c.mxl'') ''./mxl/c.mxl'' 4
     = Inr ([''Bar'', ''Position_0'', ''Rest'', ''Duration_1''], [(''filename'', JStr ''c.mxl'')])"
    by (simp add: convert_xml_to_remi_musicbert_def example_world_def load_external_metadata_def
        PROJECT_ROOT_def basename_def
        encode_score_def encode_part_def encode_measure_def encode_event_def
        quantize_position_def py_truediv_def py_int_def quantize_duration_def py_min_def keys_def
        DURATION_LABELS_def getitem_def str_int_def str_nat.simps digit_char_def)
  have n: "map_of (PDMX_DICT example_world) ''./mxl/c.mxl'' = None"
    by (simp add: example_world_def)
  from metadata_filename_overlay [OF a] obtain d where
    d: "map_of [(''filename'', JStr ''a.mxl''), (''title'', JStr ''Air'')]
          = (map_of d)(''filename'' \<mapsto> JStr (basename (PROJECT_ROOT @ ''/mxl/a.mxl'')))"
    by blast
  have "map_of [(''filename'', JStr ''a.mxl''), (''title'', JStr ''Air'')] ''filename''
       = Some (JStr (basename (PROJECT_ROOT @ ''/mxl/a.mxl'')))"
    by (simp only: d fun_upd_same)
  moreover have "basename (PROJECT_ROOT @ ''/mxl/a.mxl'') = ''a.mxl''"
    by (simp add: basename_def PROJECT_ROOT_def)
  moreover from metadata_filename_overlay [OF c] n
  have "[(''filename'', JStr ''c.mxl'')] = [(''filename'', JStr (basename (PROJECT_ROOT @ ''/mxl/c.mxl'')))]"
    by blast
  ultimately show ?thesis using a c n by simp
qed

section \<open>Properties of the batch driver\<close>































text \<open>
  The scenario of three input files of which the second does not parse: the first and
  the third get their token and metadata files, the table gets a header and two rows,
  the second is reported.
\<close>

lemma three_files_middle_corrupt:
  "batch_process example_world
     [PROJECT_ROOT @ ''/mxl/a.mxl'', PROJECT_ROOT @ ''/mxl/b.mxl'', PROJECT_ROOT @ ''/mxl/c.mxl'']
     ''/out'' [] [] =
     Inr \<lparr>fs = [(''/out/a.remi.txt'', Text ''Bar Position_0 Rest Duration_1''),
                (''/out/a.metadata.json'',
                   Data [(''filename'', JStr ''a.mxl''), (''title'', JStr ''Air'')]),
                (''/out/c.remi.txt'', Text ''Bar Position_0 Rest Duration_1''),
                (''/out/c.metadata.json'', Data [(''filename'', JStr ''c.mxl'')])],
          csv = [Header [''filename'', ''title''], Row [JStr ''a.mxl'', JStr ''Air''],
                 Row [JStr ''c.mxl'']],
          first_row = False,
          reported = [(PROJECT_ROOT @ ''/mxl/b.mxl'', ParseError)]\<rparr>"
  by code_simp


section \<open>Properties of the vocabulary builder\<close>

lemma take_retains:
  assumes "sorted (map f ys)" "a \<in> set ys" "f a < f b"
    "b \<in> set (take n (xs @ ys))" "b \<notin> set xs"
  shows "a \<in> set (take n (xs @ ys))"
proof -
  from assms(4) obtain i where il: "i < length (take n (xs @ ys))" and ib: "take n (xs @ ys) ! i = b"
    unfolding in_set_conv_nth by blast
  from il have i1: "i < n" and i2: "i < length (xs @ ys)" by simp_all
  from ib i1 have i3: "(xs @ ys) ! i = b" by (simp only: nth_take)
  have le: "length xs \<le> i"
  proof (rule ccontr)
    assume "\<not> length xs \<le> i"
    then have "i < length xs" by simp
    with i3 have "b \<in> set xs" by (auto simp: nth_append)
    with assms(5) show False by simp
  qed
  with i2 i3 have bi: "ys ! (i - length xs) = b" "i - length xs < length ys"
    by (auto simp: nth_append)
  from assms(2) obtain j where j: "j < length ys" "ys ! j = a"
    unfolding in_set_conv_nth by blast
  have "j < i - length xs"
  proof (rule ccontr)
    assume "\<not> j < i - length xs"
    then have "i - length xs \<le> j" by simp
    with assms(1) j(1) have "map f ys ! (i - length xs) \<le> map f ys ! j"
      by (simp add: sorted_iff_nth_mono del: nth_map)
    with bi j have "f b \<le> f a" by simp
    with assms(3) show False by simp
  qed
  with le i1 i2 have k: "length xs + j < n" "length xs + j < length (xs @ ys)"
    by simp_all
  have "(xs @ ys) ! (length xs + j) = a" using j by simp
  with k have "take n (xs @ ys) ! (length xs + j) = a" by (simp only: nth_take)
  moreover from k have "length xs + j < length (take n (xs @ ys))" by simp
  ultimately show ?thesis unfolding in_set_conv_nth by blast
qed

lemma index_of_None: "index_of xs t = None \<longleftrightarrow> t \<notin> set xs"
  by (induction xs) auto

lemma corpus_token_ordered:
  assumes "0 < count_list toks a" "a \<notin> set specials"
  shows "a \<in> set (sort_key f (filter (\<lambda>t. t \<notin> set specials) (first_seen toks)))"
proof -
  from assms(1) have "a \<in> set toks"
    using count_list_0_iff [of toks a] by (cases "a \<in> set toks") simp_all
  with assms(2) show ?thesis by (simp add: first_seen_def)
qed

lemma build_vocabulary_retains:
  assumes "count_list (corpus_tokens lines) b < count_list (corpus_tokens lines) a"
    "a \<notin> set specials" "b \<notin> set specials"
    "b \<in> set (build_vocabulary n specials lines)"
  shows "a \<in> set (build_vocabulary n specials lines)"
proof -
  define toks where "toks = corpus_tokens lines"
  define f where "f = (\<lambda>t. - int (count_list toks t))"
  define ys where "ys = sort_key f (filter (\<lambda>t. t \<notin> set specials) (first_seen toks))"
  have bv: "build_vocabulary n specials lines = take n (specials @ ys)"
    by (simp add: build_vocabulary_def Let_def ys_def f_def toks_def)
  from assms(1) have "0 < count_list toks a" by (simp add: toks_def)
  from corpus_token_ordered [OF this assms(2)] have 1: "a \<in> set ys" by (simp add: ys_def)
  have 2: "sorted (map f ys)" unfolding ys_def by (rule sorted_sort_key)
  from assms(1) have 3: "f a < f b" by (simp add: f_def toks_def)
  from assms(4) have 4: "b \<in> set (take n (specials @ ys))" by (simp only: bv)
  from take_retains [OF 2 1 3 4 assms(3)] show ?thesis by (simp only: bv)
qed

lemma build_vocabulary_distinct:
  assumes "distinct specials"
  shows "distinct (build_vocabulary n specials lines)"
proof -
  define ys where "ys = sort_key (\<lambda>t. - int (count_list (corpus_tokens lines) t))
               (filter (\<lambda>t. t \<notin> set specials) (first_seen (corpus_tokens lines)))"
  have "distinct ys" by (simp add: ys_def first_seen_def)
  moreover have "set specials \<inter> set ys = {}" by (auto simp: ys_def)
  ultimately have "distinct (specials @ ys)" using assms by simp
  then have "distinct (take n (specials @ ys))" by (rule distinct_take)
  then show ?thesis by (simp add: build_vocabulary_def Let_def ys_def)
qed

lemma build_vocabulary_length: "length (build_vocabulary n specials lines) \<le> n"
  by (simp add: build_vocabulary_def Let_def)

lemma special_tokens_length: "length special_tokens = 5"
  by (simp add: special_tokens_def)

lemma train_prefix: "\<exists>rest. train lines = special_tokens @ rest"
  by (simp add: train_def build_vocabulary_def Let_def vocab_size_def special_tokens_length)

lemma index_of_unk: "index_of (special_tokens @ rest) unk_token = Some 4"
  by (simp add: special_tokens_def unk_token_def)

lemma special_ids:
  "map (token_to_id (special_tokens @ rest)) special_tokens = [Some 0, Some 1, Some 2, Some 3, Some 4]"
  by (simp add: special_tokens_def token_to_id_def)

lemma take_keeps_front:
  assumes "sorted (map f ys)" "distinct ys" "a \<in> set ys"
    "card {t \<in> set ys. t \<noteq> a \<and> f t \<le> f a} < m"
  shows "a \<in> set (take m ys)"
proof -
  from assms(3) obtain j where j: "j < length ys" "ys ! j = a"
    unfolding in_set_conv_nth by blast
  have sub: "set (take j ys) \<subseteq> {t \<in> set ys. t \<noteq> a \<and> f t \<le> f a}"
  proof
    fix x assume "x \<in> set (take j ys)"
    then obtain i where il: "i < length (take j ys)" and ix: "take j ys ! i = x"
      unfolding in_set_conv_nth by blast
    from il j(1) have i: "i < j" "i < length ys" by simp_all
    with ix have x: "ys ! i = x" by simp
    from i x have "x \<in> set ys" by auto
    moreover have "x \<noteq> a"
    proof
      assume "x = a"
      with x j(2) have "ys ! i = ys ! j" by simp
      with assms(2) i j(1) have "i = j" by (simp add: nth_eq_iff_index_eq)
      with i(1) show False by simp
    qed
    moreover from assms(1) i j(1) have "map f ys ! i \<le> map f ys ! j"
      by (simp add: sorted_iff_nth_mono del: nth_map)
    with i j x have "f x \<le> f a" by simp
    ultimately show "x \<in> {t \<in> set ys. t \<noteq> a \<and> f t \<le> f a}" by simp
  qed
  have "distinct (take j ys)" using assms(2) by (rule distinct_take)
  then have "card (set (take j ys)) = length (take j ys)" by (rule distinct_card)
  with j(1) have "card (set (take j ys)) = j" by simp
  moreover have "card (set (take j ys)) \<le> card {t \<in> set ys. t \<noteq> a \<and> f t \<le> f a}"
    using sub by (intro card_mono) simp_all
  ultimately have "j < m" using assms(4) by simp
  with j have "take m ys ! j = a" "j < length (take m ys)" by simp_all
  then show ?thesis unfolding in_set_conv_nth by blast
qed

lemma take_drops_back:
  assumes "sorted (map f ys)" "b \<in> set (take m ys)"
  shows "card {t \<in> set ys. f t < f b} < m"
proof -
  from assms(2) obtain i where il: "i < length (take m ys)" and ib: "take m ys ! i = b"
    unfolding in_set_conv_nth by blast
  from il have i: "i < m" "i < length ys" by simp_all
  with ib have b: "ys ! i = b" by simp
  have sub: "{t \<in> set ys. f t < f b} \<subseteq> set (take i ys)"
  proof
    fix t assume "t \<in> {t \<in> set ys. f t < f b}"
    then have t: "t \<in> set ys" "f t < f b" by simp_all
    from t(1) obtain k where k: "k < length ys" "ys ! k = t"
      unfolding in_set_conv_nth by blast
    have "k < i"
    proof (rule ccontr)
      assume "\<not> k < i"
      then have "i \<le> k" by simp
      with assms(1) k(1) have "map f ys ! i \<le> map f ys ! k"
        by (simp add: sorted_iff_nth_mono del: nth_map)
      with i k b have "f b \<le> f t" by simp
      with t(2) show False by simp
    qed
    with k have "take i ys ! k = t" "k < length (take i ys)" by simp_all
    then show "t \<in> set (take i ys)" unfolding in_set_conv_nth by blast
  qed
  have "card {t \<in> set ys. f t < f b} \<le> card (set (take i ys))"
    using sub by (intro card_mono) simp_all
  also have "\<dots> \<le> length (take i ys)" by (rule card_length)
  also have "\<dots> \<le> i" by simp
  finally show ?thesis using i(1) by simp
qed

lemma train_unfold:
  "train lines = special_tokens @
     take 507 (sort_key (\<lambda>t. - int (count_list (corpus_tokens lines) t))
       (filter (\<lambda>t. t \<notin> set special_tokens) (first_seen (corpus_tokens lines))))"
  by (simp add: train_def build_vocabulary_def Let_def vocab_size_def special_tokens_length)

lemma train_length:
  "length (train lines) = min 512 (5 + card (set (corpus_tokens lines) - set special_tokens))"
proof -
  let ?cs = "filter (\<lambda>t. t \<notin> set special_tokens) (first_seen (corpus_tokens lines))"
  have "distinct ?cs" by (simp add: first_seen_def)
  then have "card (set ?cs) = length ?cs" by (rule distinct_card)
  moreover have "set ?cs = set (corpus_tokens lines) - set special_tokens"
    by (auto simp: first_seen_def)
  ultimately have "length ?cs = card (set (corpus_tokens lines) - set special_tokens)" by simp
  then show ?thesis
    by (simp add: train_unfold special_tokens_length min_def)
qed

lemma train_keeps:
  assumes "a \<in> set (corpus_tokens lines)" "a \<notin> set special_tokens"
    "card {t \<in> set (corpus_tokens lines) - set special_tokens.
            t \<noteq> a \<and> count_list (corpus_tokens lines) a \<le> count_list (corpus_tokens lines) t} < 507"
  shows "a \<in> set (train lines)"
proof -
  define f where "f = (\<lambda>t. - int (count_list (corpus_tokens lines) t))"
  define ys where "ys = sort_key f
       (filter (\<lambda>t. t \<notin> set special_tokens) (first_seen (corpus_tokens lines)))"
  have set_ys: "set ys = set (corpus_tokens lines) - set special_tokens"
    by (auto simp: ys_def first_seen_def)
  have "sorted (map f ys)" unfolding ys_def by (rule sorted_sort_key)
  moreover have "distinct ys" by (simp add: ys_def first_seen_def)
  moreover from assms(1,2) have "a \<in> set ys" by (simp add: set_ys)
  moreover have "{t \<in> set ys. t \<noteq> a \<and> f t \<le> f a}
      = {t \<in> set (corpus_tokens lines) - set special_tokens.
            t \<noteq> a \<and> count_list (corpus_tokens lines) a \<le> count_list (corpus_tokens lines) t}"
    by (auto simp: set_ys f_def)
  with assms(3) have "card {t \<in> set ys. t \<noteq> a \<and> f t \<le> f a} < 507" by simp
  ultimately have "a \<in> set (take 507 ys)" by (rule take_keeps_front)
  then show ?thesis by (simp add: train_unfold ys_def f_def)
qed

lemma train_drops:
  assumes "b \<notin> set special_tokens"
    "507 \<le> card {t \<in> set (corpus_tokens lines) - set special_tokens.
              count_list (corpus_tokens lines) b < count_list (corpus_tokens lines) t}"
  shows "b \<notin> set (train lines)"
proof
  assume in_train: "b \<in> set (train lines)"
  define f where "f = (\<lambda>t. - int (count_list (corpus_tokens lines) t))"
  define ys where "ys = sort_key f
       (filter (\<lambda>t. t \<notin> set special_tokens) (first_seen (corpus_tokens lines)))"
  have set_ys: "set ys = set (corpus_tokens lines) - set special_tokens"
    by (auto simp: ys_def first_seen_def)
  have s: "sorted (map f ys)" unfolding ys_def by (rule sorted_sort_key)
  from in_train assms(1) have "b \<in> set (take 507 ys)"
    by (simp add: train_unfold ys_def f_def)
  from take_drops_back [OF s this] have "card {t \<in> set ys. f t < f b} < 507" .
  moreover have "{t \<in> set ys. f t < f b}
      = {t \<in> set (corpus_tokens lines) - set special_tokens.
              count_list (corpus_tokens lines) b < count_list (corpus_tokens lines) t}"
    by (auto simp: set_ys f_def)
  ultimately show False using assms(2) by simp
qed

lemma train_subset: "set (train lines) \<subseteq> set special_tokens \<union> set (corpus_tokens lines)"
  by (auto simp: train_unfold first_seen_def dest: in_set_takeD)

lemma corpus_tokens_one_per_line:
  assumes "\<forall>l\<in>set ls. split_ws [] l = [l]"
  shows "corpus_tokens ls = ls"
  using assms unfolding corpus_tokens_def by (induction ls) simp_all

lemma in_two_letter_words:
  "t \<in> set two_letter_words \<longleftrightarrow> (\<exists>a\<in>set alphabet. \<exists>b\<in>set alphabet. t = [a, b])"
  by (auto simp: two_letter_words_def)

lemma alphabet_no_space:
  assumes "c \<in> set alphabet"
  shows "c \<noteq> CHR '' '' \<and> c \<noteq> CHR 0x09 \<and> c \<noteq> CHR 0x0A \<and> c \<noteq> CHR 0x0D \<and> c \<noteq> CHR ''z''"
  using assms by (auto simp: alphabet_def)

lemma two_letter_word_line:
  assumes "t \<in> set two_letter_words"
  shows "split_ws [] t = [t]"
proof -
  from assms obtain a b where "a \<in> set alphabet" "b \<in> set alphabet" "t = [a, b]"
    by (auto simp: in_two_letter_words)
  with alphabet_no_space [of a] alphabet_no_space [of b] show ?thesis by simp
qed

lemma example_corpus_tokens: "corpus_tokens example_corpus = example_corpus"
proof (rule corpus_tokens_one_per_line)
  show "\<forall>l\<in>set example_corpus. split_ws [] l = [l]"
    using two_letter_word_line by (auto simp: example_corpus_def)
qed

lemma two_letter_words_distinct: "distinct two_letter_words"
proof -
  have "distinct alphabet" by (simp add: alphabet_def)
  then have "distinct (List.product alphabet alphabet)" by (intro distinct_product)
  moreover have "inj_on (\<lambda>(a, b). [a, b]) (set (List.product alphabet alphabet))"
    by (auto simp: inj_on_def)
  ultimately show ?thesis by (simp add: two_letter_words_def distinct_map)
qed

lemma two_letter_words_length: "length two_letter_words = 529"
  by (simp add: two_letter_words_def alphabet_def)

lemma two_letter_words_card: "card (set two_letter_words) = 529"
  using distinct_card [OF two_letter_words_distinct] two_letter_words_length by simp

lemma distinct_count_list:
  "distinct xs \<Longrightarrow> count_list xs x = (if x \<in> set xs then 1 else 0)"
  by (induction xs) auto

lemma example_words:
  "''aa'' \<in> set two_letter_words" "''ab'' \<in> set two_letter_words"
  "''zz'' \<notin> set two_letter_words"
  by (simp_all add: in_two_letter_words alphabet_def)

lemma two_letter_word_not_special:
  assumes "t \<in> set two_letter_words"
  shows "t \<notin> set special_tokens"
proof -
  from assms have "length t = 2" by (auto simp: in_two_letter_words)
  then show ?thesis by (auto simp: special_tokens_def)
qed

lemma example_count:
  "count_list example_corpus t =
     (if t = ''aa'' then 2 else 0) + (if t = ''ab'' then 1 else 0)
     + 2 * (if t \<in> set two_letter_words then 1 else 0) + (if t = ''zz'' then 1 else 0)"
  by (simp add: example_corpus_def distinct_count_list [OF two_letter_words_distinct])

lemma example_corpus_set:
  "set example_corpus - set special_tokens = insert ''zz'' (set two_letter_words)"
  using example_words two_letter_word_not_special
  by (auto simp: example_corpus_def special_tokens_def)

lemma example_counts:
  "count_list example_corpus ''aa'' = 4" "count_list example_corpus ''ab'' = 3"
  "count_list example_corpus ''zz'' = 1"
  using example_words by (simp_all add: example_count)

lemma example_count_word:
  assumes "t \<in> set two_letter_words"
  shows "2 \<le> count_list example_corpus t"
  using assms by (simp add: example_count)

lemma example_count_three:
  assumes "3 \<le> count_list example_corpus t"
  shows "t = ''aa'' \<or> t = ''ab''"
proof (rule ccontr)
  assume "\<not> (t = ''aa'' \<or> t = ''ab'')"
  then have "count_list example_corpus t \<le> 2 + 1"
    by (simp add: example_count)
  moreover have "count_list example_corpus t \<noteq> 3"
    using \<open>\<not> (t = ''aa'' \<or> t = ''ab'')\<close> example_words(3) by (auto simp: example_count)
  ultimately show False using assms by simp
qed

lemma example_front:
  "card {t \<in> set (corpus_tokens example_corpus) - set special_tokens.
          t \<noteq> ''ab'' \<and> count_list (corpus_tokens example_corpus) ''ab''
                           \<le> count_list (corpus_tokens example_corpus) t} < 507"
proof -
  have "{t \<in> set example_corpus - set special_tokens.
          t \<noteq> ''ab'' \<and> count_list example_corpus ''ab'' \<le> count_list example_corpus t}
        \<subseteq> {''aa''}"
  proof
    fix t
    assume "t \<in> {t \<in> set example_corpus - set special_tokens.
          t \<noteq> ''ab'' \<and> count_list example_corpus ''ab'' \<le> count_list example_corpus t}"
    then have "t \<noteq> ''ab''" "3 \<le> count_list example_corpus t"
      by (simp_all add: example_counts)
    with example_count_three [of t] show "t \<in> {''aa''}" by simp
  qed
  then have "card {t \<in> set example_corpus - set special_tokens.
          t \<noteq> ''ab'' \<and> count_list example_corpus ''ab'' \<le> count_list example_corpus t}
        \<le> card {''aa''}"
    by (rule card_mono [rotated]) simp
  then show ?thesis unfolding example_corpus_tokens by simp
qed

lemma example_back:
  "507 \<le> card {t \<in> set (corpus_tokens example_corpus) - set special_tokens.
                 count_list (corpus_tokens example_corpus) ''zz''
                   < count_list (corpus_tokens example_corpus) t}"
proof -
  have "set two_letter_words \<subseteq> {t \<in> set example_corpus - set special_tokens.
                 count_list example_corpus ''zz'' < count_list example_corpus t}"
  proof
    fix t
    assume t: "t \<in> set two_letter_words"
    then have "t \<in> set example_corpus - set special_tokens"
      by (simp only: example_corpus_set) simp
    moreover from example_count_word [OF t]
    have "count_list example_corpus ''zz'' < count_list example_corpus t"
      by (simp add: example_counts)
    ultimately show "t \<in> {t \<in> set example_corpus - set special_tokens.
                 count_list example_corpus ''zz'' < count_list example_corpus t}"
      by simp
  qed
  then have "card (set two_letter_words) \<le> card {t \<in> set example_corpus - set special_tokens.
                 count_list example_corpus ''zz'' < count_list example_corpus t}"
    by (rule card_mono [rotated]) simp
  then show ?thesis unfolding example_corpus_tokens by (simp only: two_letter_words_card)
qed

lemma example_card:
  "card (set (corpus_tokens example_corpus) - set special_tokens) = 530"
  unfolding example_corpus_tokens
  using example_words(3) by (simp add: example_corpus_set two_letter_words_card)

text \<open>
  C9.  With the size budget 512 and the five special tokens of the script, the
  vocabulary starts with the special tokens in their declared order, so their ids are 0
  to 4.  It has at most 512 entries, all different, and the budget is used: the corpus
  tokens that are no special tokens fill the 507 places left as far as there are any.
  With the budget exhausted the more frequent tokens are the ones kept: a corpus token
  is kept whenever a rarer one is, it is kept when fewer than 507 others are at least as
  frequent, and it is not kept when 507 others are more frequent.  A token that is not
  kept gets the id 4 of the unknown token.
\<close>

theorem vocabulary_budget_and_specials:
  "take 5 (train lines) = special_tokens
   \<and> map (token_to_id (train lines)) special_tokens = [Some 0, Some 1, Some 2, Some 3, Some 4]
   \<and> length (train lines) \<le> 512
   \<and> length (train lines) = min 512 (5 + card (set (corpus_tokens lines) - set special_tokens))
   \<and> distinct (train lines)
   \<and> set (train lines) \<subseteq> set special_tokens \<union> set (corpus_tokens lines)
   \<and> (\<forall>a b. count_list (corpus_tokens lines) b < count_list (corpus_tokens lines) a
          \<and> a \<notin> set special_tokens \<and> b \<notin> set special_tokens \<and> b \<in> set (train lines)
          \<longrightarrow> a \<in> set (train lines))
   \<and> (\<forall>a. a \<in> set (corpus_tokens lines) \<and> a \<notin> set special_tokens
          \<and> card {t \<in> set (corpus_tokens lines) - set special_tokens.
                    t \<noteq> a \<and> count_list (corpus_tokens lines) a \<le> count_list (corpus_tokens lines) t}
              < 507
          \<longrightarrow> a \<in> set (train lines))
   \<and> (\<forall>b. b \<notin> set special_tokens
          \<and> 507 \<le> card {t \<in> set (corpus_tokens lines) - set special_tokens.
                           count_list (corpus_tokens lines) b < count_list (corpus_tokens lines) t}
          \<longrightarrow> b \<notin> set (train lines))
   \<and> (\<forall>t. t \<notin> set (train lines) \<longrightarrow> token_to_id (train lines) t = Some 4)"
proof -
  obtain rest where rest: "train lines = special_tokens @ rest"
    using train_prefix by blast
  have 1: "take 5 (train lines) = special_tokens"
    by (simp add: rest special_tokens_length)
  have 2: "map (token_to_id (train lines)) special_tokens = [Some 0, Some 1, Some 2, Some 3, Some 4]"
    by (simp only: rest special_ids)
  have 3: "length (train lines) \<le> 512"
    using build_vocabulary_length [of vocab_size special_tokens lines]
    by (simp add: train_def vocab_size_def)
  have 4: "distinct (train lines)"
    unfolding train_def by (rule build_vocabulary_distinct) (simp add: special_tokens_def)
  have 5: "a \<in> set (train lines)"
    if "count_list (corpus_tokens lines) b < count_list (corpus_tokens lines) a
          \<and> a \<notin> set special_tokens \<and> b \<notin> set special_tokens \<and> b \<in> set (train lines)" for a b
    using that unfolding train_def by (blast intro: build_vocabulary_retains)
  have 6: "token_to_id (train lines) t = Some 4" if "t \<notin> set (train lines)" for t
  proof -
    from that have "index_of (train lines) t = None" by (simp add: index_of_None)
    moreover have "index_of (train lines) unk_token = Some 4"
      by (simp only: rest index_of_unk)
    ultimately show ?thesis by (simp add: token_to_id_def)
  qed
  have 7: "a \<in> set (train lines)"
    if "a \<in> set (corpus_tokens lines) \<and> a \<notin> set special_tokens
          \<and> card {t \<in> set (corpus_tokens lines) - set special_tokens.
                    t \<noteq> a \<and> count_list (corpus_tokens lines) a \<le> count_list (corpus_tokens lines) t}
              < 507" for a
    using that by (intro train_keeps) simp_all
  have 8: "b \<notin> set (train lines)"
    if "b \<notin> set special_tokens
          \<and> 507 \<le> card {t \<in> set (corpus_tokens lines) - set special_tokens.
                           count_list (corpus_tokens lines) b < count_list (corpus_tokens lines) t}" for b
    using that by (intro train_drops) simp_all
  from 1 2 3 4 5 6 7 8 train_length [of lines] train_subset [of lines] show ?thesis
    by (intro conjI allI impI) blast+
qed

text \<open>A small corpus under the budget of the script, and under a budget of six ids.\<close>

lemma train_example:
  "train [''b a a''] = [''[PAD]'', ''[CLS]'', ''[SEP]'', ''[MASK]'', ''[UNK]'', ''a'', ''b'']"
  by (simp add: train_def build_vocabulary_def vocab_size_def special_tokens_def corpus_tokens_def
      first_seen_def)

lemma budget_exhausted_example:
  "build_vocabulary 6 special_tokens [''b a a''] = [''[PAD]'', ''[CLS]'', ''[SEP]'', ''[MASK]'', ''[UNK]'', ''a'']
   \<and> token_to_id (build_vocabulary 6 special_tokens [''b a a'']) ''a'' = Some 5
   \<and> token_to_id (build_vocabulary 6 special_tokens [''b a a'']) ''b'' = Some 4"
  by (simp add: build_vocabulary_def special_tokens_def corpus_tokens_def
      first_seen_def token_to_id_def unk_token_def)

theorem vocabulary_budget_and_specials_witness:
  "count_list (corpus_tokens example_corpus) ''ab'' < count_list (corpus_tokens example_corpus) ''aa''
   \<and> ''aa'' \<notin> set special_tokens \<and> ''ab'' \<notin> set special_tokens \<and> ''zz'' \<notin> set special_tokens
   \<and> ''ab'' \<in> set (corpus_tokens example_corpus)
   \<and> card {t \<in> set (corpus_tokens example_corpus) - set special_tokens.
             t \<noteq> ''ab'' \<and> count_list (corpus_tokens example_corpus) ''ab''
                              \<le> count_list (corpus_tokens example_corpus) t} < 507
   \<and> 507 \<le> card {t \<in> set (corpus_tokens example_corpus) - set special_tokens.
                    count_list (corpus_tokens example_corpus) ''zz''
                      < count_list (corpus_tokens example_corpus) t}
   \<and> length (train example_corpus) = 512
   \<and> ''ab'' \<in> set (train example_corpus) \<and> ''aa'' \<in> set (train example_corpus)
   \<and> ''zz'' \<notin> set (train example_corpus)
   \<and> token_to_id (train example_corpus) ''zz'' = Some 4"
proof -
  note T = vocabulary_budget_and_specials [of example_corpus]
  note T4 = T [THEN conjunct2, THEN conjunct2, THEN conjunct2, THEN conjunct1]
  note T6 = T [THEN conjunct2, THEN conjunct2, THEN conjunct2, THEN conjunct2, THEN conjunct2,
    THEN conjunct2]
  note closure = T6 [THEN conjunct1, rule_format]
  note keeps = T6 [THEN conjunct2, THEN conjunct1, rule_format]
  note drops = T6 [THEN conjunct2, THEN conjunct2, THEN conjunct1, rule_format]
  note unknown = T6 [THEN conjunct2, THEN conjunct2, THEN conjunct2, rule_format]
  have lt: "count_list (corpus_tokens example_corpus) ''ab''
      < count_list (corpus_tokens example_corpus) ''aa''"
    unfolding example_corpus_tokens by (simp add: example_counts)
  have ns: "''aa'' \<notin> set special_tokens" "''ab'' \<notin> set special_tokens"
    "''zz'' \<notin> set special_tokens"
    by (simp_all add: special_tokens_def)
  have ab_in: "''ab'' \<in> set (corpus_tokens example_corpus)"
    unfolding example_corpus_tokens by (simp add: example_corpus_def)
  from T4 have len: "length (train example_corpus) = 512"
    by (simp add: example_card)
  from ab_in ns(2) example_front have "''ab'' \<in> set (corpus_tokens example_corpus)
      \<and> ''ab'' \<notin> set special_tokens
      \<and> card {t \<in> set (corpus_tokens example_corpus) - set special_tokens.
             t \<noteq> ''ab'' \<and> count_list (corpus_tokens example_corpus) ''ab''
                              \<le> count_list (corpus_tokens example_corpus) t} < 507"
    by (intro conjI)
  then have ab: "''ab'' \<in> set (train example_corpus)" by (rule keeps)
  from lt ns(1,2) ab have "count_list (corpus_tokens example_corpus) ''ab''
        < count_list (corpus_tokens example_corpus) ''aa''
      \<and> ''aa'' \<notin> set special_tokens \<and> ''ab'' \<notin> set special_tokens
      \<and> ''ab'' \<in> set (train example_corpus)"
    by (intro conjI)
  then have aa: "''aa'' \<in> set (train example_corpus)" by (rule closure)
  from ns(3) example_back have "''zz'' \<notin> set special_tokens
      \<and> 507 \<le> card {t \<in> set (corpus_tokens example_corpus) - set special_tokens.
                    count_list (corpus_tokens example_corpus) ''zz''
                      < count_list (corpus_tokens example_corpus) t}"
    by (intro conjI)
  then have zz: "''zz'' \<notin> set (train example_corpus)" by (rule drops)
  then have unk: "token_to_id (train example_corpus) ''zz'' = Some 4" by (rule unknown)
  from lt ns ab_in example_front example_back len ab aa zz unk show ?thesis
    by (intro conjI)
qed

end
